theory Spec2Isabelle
  imports Main "HOL-Library.Word"
begin

section \<open>Data model of the identity hook\<close>

text \<open>
  The development embeds \<^verbatim>\<open>client/allocrunner/identity_hook.go\<close>.

  \<^item> \<^verbatim>\<open>uint64\<close> and \<^verbatim>\<open>time.Duration\<close> (an \<^verbatim>\<open>int64\<close> count of
    nanoseconds) are 64-bit words; \<open>+\<close> wraps as in Go, and a duration is read as a
    signed number with \<open>sint\<close>.
  \<^item> A \<^verbatim>\<open>time.Time\<close> is an instant, counted in nanoseconds from the zero value
    \<^verbatim>\<open>time.Time{}\<close>; \<^verbatim>\<open>IsZero\<close> is equality with 0, \<^verbatim>\<open>Before\<close> is \<open><\<close> and
    \<^verbatim>\<open>Add\<close> adds the signed value of the duration.
  \<^item> Go maps are partial functions; a nil map is \<open>None\<close>.
  \<^item> \<^verbatim>\<open>t.Task()\<close> returns a pointer that may be nil, hence \<open>Task option\<close>. The
    identities of a task and the values of the maps are taken to be non-nil.
\<close>

type_synonym u64 = "64 word"
type_synonym duration = "64 word"
type_synonym time = int

definition Second :: duration where
  "Second = 1000000000"

definition Hour :: duration where
  "Hour = 3600000000000"

definition time_Add :: "time \<Rightarrow> duration \<Rightarrow> time" where
  "time_Add t d = t + sint d"

definition time_Before :: "time \<Rightarrow> time \<Rightarrow> bool" where
  "time_Before t u = (t < u)"

definition time_IsZero :: "time \<Rightarrow> bool" where
  "time_IsZero t = (t = 0)"

record WorkloadIdentity =
  Name :: string
  TTL :: duration

record Task =
  TaskName :: string
  Identities :: "WorkloadIdentity list"

record Allocation =
  ID :: string
  CreateIndex :: u64

record WorkloadIdentityRequest =
  req_AllocID :: string
  req_TaskName :: string
  req_IdentityName :: string

record SignedWorkloadIdentity =
  IdentityName :: string
  JWT :: string
  Expiration :: time

datatype error = Err string | Wrap string error

text \<open>
  The fields of \<^verbatim>\<open>identityHook\<close> the code reads: the tasks of the allocation runner
  (\<^verbatim>\<open>h.ar.tasks\<close>, each through \<^verbatim>\<open>t.Task()\<close>), its allocation, \<^verbatim>\<open>minWait\<close>, and
  the state of \<^verbatim>\<open>stopCtx\<close>: \<open>stopped\<close> is True once \<^verbatim>\<open>h.stop()\<close> has been called.
  A cancelled context stays cancelled.
\<close>

record identityHook =
  tasks :: "Task option list"
  alloc :: Allocation
  minWait :: duration
  stopped :: bool

text \<open>
  What the hook does to the outside, in the order it does it: the logger calls, the
  calls of the signer (with what the signer answered), of
  \<^verbatim>\<open>SetSignedTaskIdentities\<close> and of \<^verbatim>\<open>setAltToken\<close>, the timer being armed, and
  the goroutine started by \<^verbatim>\<open>Prerun\<close>.
\<close>

datatype event =
    LogNoIdentities
  | LogMissingToken string
  | LogNoExpire
  | LogWaiting nat duration
  | TimerReset duration
  | LogGetting nat
  | SignCall u64 "WorkloadIdentityRequest list" "error + SignedWorkloadIdentity list"
  | LogRenewError "error option" duration
  | LogUnexpected string
  | SetAltToken WorkloadIdentity string
  | LogSetError error string
  | Publish "(string \<rightharpoonup> string) option"
  | GoRenew u64 "string \<rightharpoonup> SignedWorkloadIdentity"

text \<open>
  Everything the hook calls but does not define is a field of the environment, acting on
  a state \<open>'w\<close> of the outside world: the clock, the signer (\<^verbatim>\<open>h.ar.widmgr\<close> and
  \<^verbatim>\<open>h.widmgr\<close>, one signing capability), the sink \<^verbatim>\<open>setAltToken\<close>, the helpers
  \<^verbatim>\<open>helper.ExpiryToRenewTime\<close> (which is handed \<^verbatim>\<open>time.Now\<close> and reads the clock
  itself), \<^verbatim>\<open>helper.Backoff\<close> and \<^verbatim>\<open>helper.RandomStagger\<close>, the test
  \<^verbatim>\<open>h.stopCtx.Err() != nil\<close>, and the \<^verbatim>\<open>select\<close> after \<^verbatim>\<open>timer.Reset(wait)\<close>, whose
  answer is True when \<^verbatim>\<open>timer.C\<close> is taken and False when \<^verbatim>\<open>h.stopCtx.Done()\<close> is.
\<close>

record 'w env =
  Now :: "'w \<Rightarrow> time \<times> 'w"
  SignIdentities :: "u64 \<Rightarrow> WorkloadIdentityRequest list \<Rightarrow> 'w
                       \<Rightarrow> (error + SignedWorkloadIdentity list) \<times> 'w"
  setAltToken :: "WorkloadIdentity \<Rightarrow> string \<Rightarrow> 'w \<Rightarrow> error option \<times> 'w"
  ExpiryToRenewTime :: "time \<Rightarrow> duration \<Rightarrow> 'w \<Rightarrow> duration \<times> 'w"
  Backoff :: "duration \<Rightarrow> duration \<Rightarrow> u64 \<Rightarrow> duration"
  RandomStagger :: "duration \<Rightarrow> 'w \<Rightarrow> duration \<times> 'w"
  ctxErr :: "'w \<Rightarrow> bool \<times> 'w"
  selectTimer :: "duration \<Rightarrow> 'w \<Rightarrow> bool \<times> 'w"

section \<open>The hook's lifecycle\<close>

definition newIdentityHook :: "Task option list \<Rightarrow> Allocation \<Rightarrow> identityHook" where
  "newIdentityHook ts a = \<lparr>tasks = ts, alloc = a, minWait = 10 * Second, stopped = False\<rparr>"

definition stop :: "identityHook \<Rightarrow> identityHook" where
  "stop h = h\<lparr>stopped := True\<rparr>"

definition Stop :: "identityHook \<Rightarrow> error option \<times> identityHook" where
  "Stop h = (None, stop h)"

definition Shutdown :: "identityHook \<Rightarrow> identityHook" where
  "Shutdown h = stop h"

definition mkRequest :: "Allocation \<Rightarrow> Task \<Rightarrow> WorkloadIdentity \<Rightarrow> WorkloadIdentityRequest" where
  "mkRequest a task wid =
     \<lparr>req_AllocID = ID a, req_TaskName = TaskName task, req_IdentityName = Name wid\<rparr>"

text \<open>The loop of \<^verbatim>\<open>getIdentities\<close> that indexes the signed identities by name.\<close>

fun indexByName :: "SignedWorkloadIdentity list \<Rightarrow> (string \<rightharpoonup> string) \<Rightarrow> (string \<rightharpoonup> string)" where
  "indexByName [] m = m"
| "indexByName (wid # wids) m = indexByName wids (m(IdentityName wid \<mapsto> JWT wid))"

definition getIdentities ::
  "'w env \<Rightarrow> Allocation \<Rightarrow> Task \<Rightarrow> 'w
     \<Rightarrow> (error + (string \<rightharpoonup> string) option) \<times> event list \<times> 'w" where
  "getIdentities E a task w =
     (if Identities task = [] then (Inr None, [], w)
      else
        let req = map (mkRequest a task) (Identities task);
            (res, w1) = SignIdentities E (CreateIndex a) req w
        in case res of
             Inl err \<Rightarrow> (Inl err, [SignCall (CreateIndex a) req res], w1)
           | Inr signedWIDs \<Rightarrow>
               (Inr (Some (indexByName signedWIDs Map.empty)),
                [SignCall (CreateIndex a) req res], w1))"

text \<open>
  The loop of \<^verbatim>\<open>Prerun\<close> over \<^verbatim>\<open>h.ar.tasks\<close>. The map bound by \<^verbatim>\<open>:=\<close> inside
  the loop is a new variable of the loop body; it is the one published.
\<close>

fun PrerunTasks ::
  "'w env \<Rightarrow> identityHook \<Rightarrow> Task option list \<Rightarrow> 'w \<Rightarrow> error option \<times> event list \<times> 'w" where
  "PrerunTasks E h [] w = (None, [], w)"
| "PrerunTasks E h (None # ts) w = PrerunTasks E h ts w"
| "PrerunTasks E h (Some task # ts) w =
     (case getIdentities E (alloc h) task w of
        (Inl err, evs, w1) \<Rightarrow>
          (Some (Wrap ''error fetching alternate identities'' err), evs, w1)
      | (Inr signedWIDs, evs, w1) \<Rightarrow>
          (case PrerunTasks E h ts w1 of
             (r, evs', w2) \<Rightarrow> (r, evs @ Publish signedWIDs # evs', w2)))"

text \<open>
  \<^verbatim>\<open>Prerun\<close>: the map handed to \<^verbatim>\<open>go h.renew\<close> is the variable declared before the
  loop, which nothing assigns: the empty map. (The source declares it with string values
  and \<^verbatim>\<open>renew\<close> takes signed identities as values; the empty map is the same at
  either type.)
\<close>

definition Prerun :: "'w env \<Rightarrow> identityHook \<Rightarrow> 'w \<Rightarrow> error option \<times> event list \<times> 'w" where
  "Prerun E h w =
     (case PrerunTasks E h (tasks h) w of
        (Some err, evs, w1) \<Rightarrow> (Some err, evs, w1)
      | (None, evs, w1) \<Rightarrow> (None, evs @ [GoRenew (CreateIndex (alloc h)) Map.empty], w1))"

section \<open>The renewal loop\<close>

text \<open>
  The variables of \<^verbatim>\<open>renew\<close> that the loop over the identities of a task builds:
  the requests, \<^verbatim>\<open>renewNow\<close>, \<^verbatim>\<open>minExp\<close> and \<^verbatim>\<open>widMap\<close>.
\<close>

record candidates =
  c_reqs :: "WorkloadIdentityRequest list"
  c_renewNow :: bool
  c_minExp :: time
  c_widMap :: "string \<rightharpoonup> WorkloadIdentity"

fun selectCandidates ::
  "Allocation \<Rightarrow> Task \<Rightarrow> (string \<rightharpoonup> SignedWorkloadIdentity) \<Rightarrow> WorkloadIdentity list
     \<Rightarrow> candidates \<Rightarrow> candidates \<times> event list" where
  "selectCandidates a task signedWIDs [] c = (c, [])"
| "selectCandidates a task signedWIDs (wid # wids) c =
     (if TTL wid = 0 then selectCandidates a task signedWIDs wids c
      else
        let c1 = c\<lparr>c_widMap := (c_widMap c)(Name wid \<mapsto> wid),
                   c_reqs := c_reqs c @ [mkRequest a task wid]\<rparr>
        in case signedWIDs (Name wid) of
             None \<Rightarrow>
               (case selectCandidates a task signedWIDs wids (c1\<lparr>c_renewNow := True\<rparr>) of
                  (c', evs) \<Rightarrow> (c', LogMissingToken (Name wid) # evs))
           | Some sid \<Rightarrow>
               selectCandidates a task signedWIDs wids
                 (if time_Before (Expiration sid) (c_minExp c1)
                  then c1\<lparr>c_minExp := Expiration sid\<rparr> else c1))"

text \<open>
  The body of the loop over the tasks up to the first \<^verbatim>\<open>wait\<close>: \<open>None\<close> when
  \<^verbatim>\<open>renew\<close> returns there, otherwise the candidates and the first wait.
\<close>

definition prepare ::
  "'w env \<Rightarrow> identityHook \<Rightarrow> (string \<rightharpoonup> SignedWorkloadIdentity) \<Rightarrow> Task \<Rightarrow> 'w
     \<Rightarrow> (candidates \<times> duration) option \<times> event list \<times> 'w" where
  "prepare E h signedWIDs task w =
     (if Identities task = [] then (None, [LogNoIdentities], w)
      else
        case Now E w of (now0, w1) \<Rightarrow>
        case selectCandidates (alloc h) task signedWIDs (Identities task)
               \<lparr>c_reqs = [], c_renewNow = False, c_minExp = time_Add now0 (30 * Hour),
                c_widMap = Map.empty\<rparr> of
          (c, evs) \<Rightarrow>
            if c_reqs c = [] then (None, evs @ [LogNoExpire], w1)
            else if c_renewNow c then (Some (c, 0), evs, w1)
            else case ExpiryToRenewTime E (c_minExp c) (minWait h) w1 of
                   (wt, w2) \<Rightarrow> (Some (c, wt), evs, w2))"

record loop_state =
  wait :: duration
  retry :: u64
  minExp :: time

text \<open>The loop over the tokens of a successful signing call.\<close>

fun applyTokens ::
  "'w env \<Rightarrow> identityHook \<Rightarrow> (string \<rightharpoonup> WorkloadIdentity) \<Rightarrow> u64
     \<Rightarrow> SignedWorkloadIdentity list \<Rightarrow> time \<Rightarrow> 'w \<Rightarrow> time \<times> event list \<times> 'w" where
  "applyTokens E h widMap rt [] mExp w = (mExp, [], w)"
| "applyTokens E h widMap rt (token # tokens) mExp w =
     (case widMap (IdentityName token) of
        None \<Rightarrow>
          (case applyTokens E h widMap rt tokens mExp w of
             (m, evs, w') \<Rightarrow> (m, LogUnexpected (IdentityName token) # evs, w'))
      | Some widspec \<Rightarrow>
          (case setAltToken E widspec (JWT token) w of
             (Some err, w1) \<Rightarrow>
               (case Now E w1 of (now1, w2) \<Rightarrow>
                case RandomStagger E (minWait h) w2 of (j, w3) \<Rightarrow>
                case applyTokens E h widMap rt tokens
                       (time_Add now1 (Backoff E (minWait h) Hour (rt + 1) + j)) w3 of
                  (m, evs, w') \<Rightarrow>
                    (m, SetAltToken widspec (JWT token)
                        # LogSetError err (IdentityName token) # evs, w'))
           | (None, w1) \<Rightarrow>
               (case applyTokens E h widMap rt tokens
                       (if time_IsZero mExp then Expiration token
                        else if time_Before (Expiration token) mExp then Expiration token
                        else mExp) w1 of
                  (m, evs, w') \<Rightarrow> (m, SetAltToken widspec (JWT token) # evs, w'))))"

text \<open>
  What the two failure branches of a cycle do: count the retry and take the next wait
  from \<^verbatim>\<open>helper.Backoff\<close> and \<^verbatim>\<open>helper.RandomStagger\<close>.
\<close>

definition cycleFailed ::
  "'w env \<Rightarrow> identityHook \<Rightarrow> error option \<Rightarrow> loop_state \<Rightarrow> 'w
     \<Rightarrow> loop_state \<times> event list \<times> 'w" where
  "cycleFailed E h err st w =
     (case RandomStagger E (minWait h) w of
        (j, w1) \<Rightarrow>
          (st\<lparr>retry := retry st + 1,
              wait := Backoff E (minWait h) Hour (retry st + 1) + j\<rparr>,
           [LogRenewError err (Backoff E (minWait h) Hour (retry st + 1) + j)], w1))"

text \<open>
  One pass through the body of the inner \<^verbatim>\<open>for\<close>: \<open>None\<close> when \<^verbatim>\<open>renew\<close> returns
  (the \<^verbatim>\<open>select\<close> took \<^verbatim>\<open>h.stopCtx.Done()\<close>), otherwise the state the next pass
  starts from.
\<close>

definition cycle ::
  "'w env \<Rightarrow> identityHook \<Rightarrow> u64 \<Rightarrow> WorkloadIdentityRequest list
     \<Rightarrow> (string \<rightharpoonup> WorkloadIdentity) \<Rightarrow> loop_state \<Rightarrow> 'w
     \<Rightarrow> loop_state option \<times> event list \<times> 'w" where
  "cycle E h createIndex reqs widMap st w =
     (case selectTimer E (wait st) w of
        (False, w1) \<Rightarrow> (None, [LogWaiting (length reqs) (wait st), TimerReset (wait st)], w1)
      | (True, w1) \<Rightarrow>
          (case SignIdentities E createIndex reqs w1 of
             (Inl err, w2) \<Rightarrow>
               (case cycleFailed E h (Some err) st w2 of
                  (st', evs, w3) \<Rightarrow>
                    (Some st',
                     [LogWaiting (length reqs) (wait st), TimerReset (wait st),
                      LogGetting (length reqs), SignCall createIndex reqs (Inl err)] @ evs, w3))
           | (Inr tokens, w2) \<Rightarrow>
               if tokens = [] then
                 (case cycleFailed E h None st w2 of
                    (st', evs, w3) \<Rightarrow>
                      (Some st',
                       [LogWaiting (length reqs) (wait st), TimerReset (wait st),
                        LogGetting (length reqs), SignCall createIndex reqs (Inr tokens)] @ evs, w3))
               else
                 (case applyTokens E h widMap (retry st) tokens 0 w2 of
                    (mExp, evs, w3) \<Rightarrow>
                      (case ExpiryToRenewTime E mExp (minWait h) w3 of
                         (wt, w4) \<Rightarrow>
                           (Some \<lparr>wait = wt, retry = 0, minExp = mExp\<rparr>,
                            [LogWaiting (length reqs) (wait st), TimerReset (wait st),
                             LogGetting (length reqs), SignCall createIndex reqs (Inr tokens)] @ evs,
                            w4)))))"

text \<open>
  The inner \<^verbatim>\<open>for\<close> may run forever; \<open>cycles\<close> runs at most as many passes as it
  has fuel and answers \<open>OutOfFuel\<close> with the events so far when the loop is still
  running then.
\<close>

datatype outcome = Returned | Panicked | OutOfFuel

fun cycles ::
  "'w env \<Rightarrow> identityHook \<Rightarrow> u64 \<Rightarrow> WorkloadIdentityRequest list
     \<Rightarrow> (string \<rightharpoonup> WorkloadIdentity) \<Rightarrow> nat \<Rightarrow> loop_state \<Rightarrow> 'w
     \<Rightarrow> outcome \<times> event list \<times> 'w" where
  "cycles E h createIndex reqs widMap 0 st w = (OutOfFuel, [], w)"
| "cycles E h createIndex reqs widMap (Suc n) st w =
     (case cycle E h createIndex reqs widMap st w of
        (None, evs, w1) \<Rightarrow> (Returned, evs, w1)
      | (Some st', evs, w1) \<Rightarrow>
          (case cycles E h createIndex reqs widMap n st' w1 of
             (out, evs', w2) \<Rightarrow> (out, evs @ evs', w2)))"

text \<open>
  \<^verbatim>\<open>h.stopCtx.Err() != nil\<close>: True once cancellation has been seen, otherwise what
  the environment answers.
\<close>

definition stopCtxErr :: "'w env \<Rightarrow> bool \<Rightarrow> 'w \<Rightarrow> bool \<times> 'w" where
  "stopCtxErr E cancelled w = (if cancelled then (True, w) else ctxErr E w)"

text \<open>
  The loop of \<^verbatim>\<open>renew\<close> over \<^verbatim>\<open>h.ar.tasks\<close>. A nil task panics at
  \<^verbatim>\<open>task.Identities\<close>. The initialiser \<^verbatim>\<open>err := h.stopCtx.Err()\<close> of the inner
  \<^verbatim>\<open>for\<close> runs once, and the \<^verbatim>\<open>err\<close> assigned in its body is another variable, so
  the inner loop is either skipped or never left through its condition.
\<close>

fun renewTasks ::
  "'w env \<Rightarrow> identityHook \<Rightarrow> nat \<Rightarrow> u64 \<Rightarrow> (string \<rightharpoonup> SignedWorkloadIdentity) \<Rightarrow> bool
     \<Rightarrow> Task option list \<Rightarrow> 'w \<Rightarrow> outcome \<times> event list \<times> 'w" where
  "renewTasks E h fuel createIndex signedWIDs cancelled [] w = (Returned, [], w)"
| "renewTasks E h fuel createIndex signedWIDs cancelled (None # ts) w = (Panicked, [], w)"
| "renewTasks E h fuel createIndex signedWIDs cancelled (Some task # ts) w =
     (case prepare E h signedWIDs task w of
        (None, evs, w1) \<Rightarrow> (Returned, evs, w1)
      | (Some (c, wt), evs, w1) \<Rightarrow>
          (case stopCtxErr E cancelled w1 of
             (True, w2) \<Rightarrow>
               (case renewTasks E h fuel createIndex signedWIDs True ts w2 of
                  (out, evs', w3) \<Rightarrow> (out, evs @ evs', w3))
           | (False, w2) \<Rightarrow>
               (case cycles E h createIndex (c_reqs c) (c_widMap c) fuel
                       \<lparr>wait = wt, retry = 0, minExp = c_minExp c\<rparr> w2 of
                  (out, evs', w3) \<Rightarrow> (out, evs @ evs', w3))))"

definition renew ::
  "'w env \<Rightarrow> identityHook \<Rightarrow> nat \<Rightarrow> u64 \<Rightarrow> (string \<rightharpoonup> SignedWorkloadIdentity) \<Rightarrow> 'w
     \<Rightarrow> outcome \<times> event list \<times> 'w" where
  "renew E h fuel createIndex signedWIDs w =
     renewTasks E h fuel createIndex signedWIDs (stopped h) (tasks h) w"

section \<open>Reading a trace\<close>



text \<open>
  The \<^verbatim>\<open>next\<close> wait of every \<^verbatim>\<open>error renewing workload identities\<close> line of a
  trace: the waits computed by the cycles that failed.
\<close>

fun failWaits :: "event list \<Rightarrow> duration list" where
  "failWaits [] = []"
| "failWaits (LogRenewError e d # evs) = d # failWaits evs"
| "failWaits (ev # evs) = failWaits evs"

text \<open>The requests of the signer calls of a trace, and the maps handed to \<^verbatim>\<open>go h.renew\<close>.\<close>

fun signRequests :: "event list \<Rightarrow> WorkloadIdentityRequest list list" where
  "signRequests [] = []"
| "signRequests (SignCall i r res # evs) = r # signRequests evs"
| "signRequests (ev # evs) = signRequests evs"

fun goRenews :: "event list \<Rightarrow> (u64 \<times> (string \<rightharpoonup> SignedWorkloadIdentity)) list" where
  "goRenews [] = []"
| "goRenews (GoRenew i m # evs) = (i, m) # goRenews evs"
| "goRenews (ev # evs) = goRenews evs"

fun published :: "event list \<Rightarrow> (string \<rightharpoonup> string) option list" where
  "published [] = []"
| "published (Publish m # evs) = m # published evs"
| "published (ev # evs) = published evs"

text \<open>
  The expirations of the tokens handed to \<^verbatim>\<open>renew\<close> for the identities of a task that
  have a TTL, and the earliest of an instant and a list of instants.
\<close>

fun candidateExpirations ::
  "(string \<rightharpoonup> SignedWorkloadIdentity) \<Rightarrow> WorkloadIdentity list \<Rightarrow> time list" where
  "candidateExpirations signedWIDs [] = []"
| "candidateExpirations signedWIDs (wid # wids) =
     (if TTL wid = 0 then candidateExpirations signedWIDs wids
      else case signedWIDs (Name wid) of
             None \<Rightarrow> candidateExpirations signedWIDs wids
           | Some sid \<Rightarrow> Expiration sid # candidateExpirations signedWIDs wids)"

definition earliest :: "time \<Rightarrow> time list \<Rightarrow> time" where
  "earliest t ts = fold min ts t"

text \<open>
  A trace in which every answer of the signer is a list of signed identities, and the map
  published right after it is that list indexed by name.
\<close>

fun publishedNext :: "event list \<Rightarrow> bool" where
  "publishedNext [] = True"
| "publishedNext (SignCall i r res # evs) =
     (case res of
        Inl err \<Rightarrow> False
      | Inr signedWIDs \<Rightarrow>
          (case evs of
             Publish m # evs' \<Rightarrow>
               m = Some (indexByName signedWIDs Map.empty) \<and> publishedNext evs'
           | _ \<Rightarrow> False))"
| "publishedNext (ev # evs) = publishedNext evs"

section \<open>Helpers that are not among the sources\<close>

text \<open>
  Modelled from the spec: \<^verbatim>\<open>helper.Backoff\<close> is called by \<^verbatim>\<open>renew\<close> but defined in
  a package that is not among the sources. The specification calls it a capped
  exponential backoff that grows monotonically with the retry count up to the ceiling:
  the floor doubled once per retry, and the ceiling as soon as that reaches it.
\<close>

definition backoff :: "duration \<Rightarrow> duration \<Rightarrow> u64 \<Rightarrow> duration" where
  "backoff floor ceiling n =
     (if sint floor * 2 ^ unat n < sint ceiling then word_of_int (sint floor * 2 ^ unat n)
      else ceiling)"

text \<open>
  Modelled from the spec: \<^verbatim>\<open>helper.RandomStagger\<close> is not among the sources either.
  The specification calls its result a bounded random jitter scaled to the floor: a
  duration between zero and its argument, chosen by the environment.
\<close>

definition jitterBounded :: "duration \<Rightarrow> duration \<Rightarrow> bool" where
  "jitterBounded floor j = (0 \<le> sint j \<and> sint j \<le> sint floor)"

section \<open>An environment to run the hook in\<close>

text \<open>
  The state of this environment counts the signer calls made so far. The clock stands at
  \<open>T0\<close>; the \<open>n\<close>-th signer call returns \<open>answers n\<close>; a sink write fails for the
  tokens \<open>sinkFails\<close> picks; the renewal time is half of what is left, and at least the
  floor; the jitter after \<open>n\<close> signer calls is \<open>jitter n\<close>; the timer wins the
  \<^verbatim>\<open>select\<close> until \<open>patience\<close> signer calls have been made, and cancellation wins
  after that.
\<close>

definition T0 :: time where
  "T0 = 1000000000000"

definition scriptEnv ::
  "(nat \<Rightarrow> error + SignedWorkloadIdentity list) \<Rightarrow> (string \<Rightarrow> bool) \<Rightarrow> (nat \<Rightarrow> duration)
     \<Rightarrow> nat \<Rightarrow> nat env" where
  "scriptEnv answers sinkFails jitter patience =
     \<lparr>Now = (\<lambda>w. (T0, w)),
      SignIdentities = (\<lambda>i r w. (answers w, Suc w)),
      setAltToken = (\<lambda>wid jwt w. (if sinkFails jwt then Some (Err ''sink'') else None, w)),
      ExpiryToRenewTime = (\<lambda>e f w. (word_of_int (max (sint f) ((e - T0) div 2)), w)),
      Backoff = backoff,
      RandomStagger = (\<lambda>d w. (jitter w, w)),
      ctxErr = (\<lambda>w. (False, w)),
      selectTimer = (\<lambda>d w. (w < patience, w))\<rparr>"

definition exAlloc :: Allocation where
  "exAlloc = \<lparr>ID = ''a1'', CreateIndex = 7\<rparr>"

definition consul :: WorkloadIdentity where
  "consul = \<lparr>Name = ''consul'', TTL = Hour\<rparr>"

definition vault :: WorkloadIdentity where
  "vault = \<lparr>Name = ''vault'', TTL = 600 * Second\<rparr>"

definition static :: WorkloadIdentity where
  "static = \<lparr>Name = ''static'', TTL = 0\<rparr>"

definition webTask :: Task where
  "webTask = \<lparr>TaskName = ''web'', Identities = [static, vault]\<rparr>"

definition dbTask :: Task where
  "dbTask = \<lparr>TaskName = ''db'', Identities = [consul]\<rparr>"

definition signedToken :: "string \<Rightarrow> time \<Rightarrow> SignedWorkloadIdentity" where
  "signedToken n e = \<lparr>IdentityName = n, JWT = n @ ''.jwt'', Expiration = e\<rparr>"

text \<open>
  A signer that answers every call with a token for \<open>vault\<close> that expires ten minutes
  after \<open>T0\<close>, sinks that never fail, no jitter, and cancellation after three signer
  calls; a hook for the task \<open>web\<close>, and one for the tasks \<open>db\<close> and \<open>web\<close>.
\<close>

definition envB :: "nat env" where
  "envB = scriptEnv (\<lambda>n. Inr [signedToken ''vault'' (T0 + 600000000000)]) (\<lambda>s. False) (\<lambda>n. 0) 3"

definition hookB :: identityHook where
  "hookB = newIdentityHook [Some webTask] exAlloc"

definition hookAB :: identityHook where
  "hookAB = newIdentityHook [Some dbTask, Some webTask] exAlloc"

text \<open>
  A signer that answers every call with an error, and a jitter of three seconds that
  becomes six seconds from the ninth signer call on.
\<close>

definition envF :: "nat env" where
  "envF = scriptEnv (\<lambda>n. Inl (Err ''rpc'')) (\<lambda>s. False)
            (\<lambda>n. if n < 9 then 3 * Second else 6 * Second) 20"

section \<open>The cycles of the renewal loop\<close>

text \<open>The definitions a run in a concrete environment is evaluated with.\<close>

lemmas run_defs = renew_def prepare_def cycle_def cycleFailed_def stopCtxErr_def scriptEnv_def
  newIdentityHook_def exAlloc_def webTask_def dbTask_def consul_def vault_def static_def
  signedToken_def mkRequest_def time_Add_def time_Before_def time_IsZero_def backoff_def
  Second_def Hour_def T0_def Let_def envB_def envF_def hookB_def hookAB_def Prerun_def
  getIdentities_def
  stop_def Stop_def Shutdown_def


text \<open>
  C4. A signing call of a renewal cycle that answers with no signed identity is handled as
  one that answers with an error: the retry counter is incremented, the next wait is
  \<^verbatim>\<open>Backoff(minWait, time.Hour, retry)\<close> of the incremented counter plus
  \<^verbatim>\<open>RandomStagger(minWait)\<close>, \<^verbatim>\<open>minExp\<close> is left as it was, no sink is written,
  and the loop goes on to its next pass.
\<close>

theorem zero_tokens_handled_as_error:
  assumes "selectTimer E (wait st) w = (True, w1)"
    and "SignIdentities E createIndex reqs w1 = (res, w2)"
    and "res = Inr [] \<or> res = Inl err"
    and "RandomStagger E (minWait h) w2 = (j, w3)"
  shows "cycle E h createIndex reqs widMap st w =
           (Some (st\<lparr>retry := retry st + 1,
                     wait := Backoff E (minWait h) Hour (retry st + 1) + j\<rparr>),
            [LogWaiting (length reqs) (wait st), TimerReset (wait st),
             LogGetting (length reqs), SignCall createIndex reqs res,
             LogRenewError (case res of Inl e \<Rightarrow> Some e | Inr ts \<Rightarrow> None)
               (Backoff E (minWait h) Hour (retry st + 1) + j)],
            w3)"
  using assms by (auto simp: cycle_def cycleFailed_def)

theorem zero_tokens_handled_as_error_witness:
  "cycle (scriptEnv (\<lambda>n. Inr []) (\<lambda>s. False) (\<lambda>n. 3 * Second) 5)
     (newIdentityHook [] exAlloc) 7 [mkRequest exAlloc \<lparr>TaskName = ''web'', Identities = [vault]\<rparr> vault]
     [''vault'' \<mapsto> vault] \<lparr>wait = 0, retry = 0, minExp = T0\<rparr> 0 =
   (Some \<lparr>wait = 23 * Second, retry = 1, minExp = T0\<rparr>,
    [LogWaiting 1 0, TimerReset 0, LogGetting 1,
     SignCall 7 [mkRequest exAlloc \<lparr>TaskName = ''web'', Identities = [vault]\<rparr> vault] (Inr []),
     LogRenewError None (23 * Second)], 1)"
proof -
  let ?E = "scriptEnv (\<lambda>n. Inr []) (\<lambda>s. False) (\<lambda>n. 3 * Second) 5"
  let ?h = "newIdentityHook [] exAlloc"
  let ?st = "\<lparr>wait = 0, retry = 0, minExp = T0\<rparr>"
  let ?reqs = "[mkRequest exAlloc \<lparr>TaskName = ''web'', Identities = [vault]\<rparr> vault]"
  have h1: "selectTimer ?E (wait ?st) 0 = (True, 0)"
    by (simp add: scriptEnv_def)
  have h2: "SignIdentities ?E 7 ?reqs 0 = (Inr [], 1)"
    by (simp add: scriptEnv_def)
  have h3: "(Inr [] :: error + SignedWorkloadIdentity list) = Inr [] \<or> Inr [] = Inl (Err ''none'')"
    by simp
  have h4: "RandomStagger ?E (minWait ?h) 1 = (3 * Second, 1)"
    by (simp add: scriptEnv_def)
  have b: "Backoff ?E (minWait ?h) Hour (retry ?st + 1) + 3 * Second = 23 * Second"
    by (simp add: scriptEnv_def newIdentityHook_def backoff_def Second_def Hour_def)
  show ?thesis
    using zero_tokens_handled_as_error [OF h1 h2 h3 h4, of "[''vault'' \<mapsto> vault]"] b
    by simp
qed



text \<open>
  C6, as amended. The retry counter is reset to zero by every cycle whose signing call
  returned at least one token, whatever the sinks answered and whichever identities were
  answered; after such a cycle the next wait is what \<^verbatim>\<open>ExpiryToRenewTime\<close> returns for
  the \<^verbatim>\<open>minExp\<close> the loop over the tokens computed, not a backoff.
\<close>

theorem retry_reset_whenever_tokens_returned:
  assumes "selectTimer E (wait st) w = (True, w1)"
    and "SignIdentities E createIndex reqs w1 = (Inr tokens, w2)"
    and "tokens \<noteq> []"
    and "applyTokens E h widMap (retry st) tokens 0 w2 = (mExp, evs, w3)"
    and "ExpiryToRenewTime E mExp (minWait h) w3 = (wt, w4)"
  shows "cycle E h createIndex reqs widMap st w =
           (Some \<lparr>wait = wt, retry = 0, minExp = mExp\<rparr>,
            [LogWaiting (length reqs) (wait st), TimerReset (wait st),
             LogGetting (length reqs), SignCall createIndex reqs (Inr tokens)] @ evs, w4)"
  using assms by (simp add: cycle_def)

theorem retry_reset_whenever_tokens_returned_witness:
  "cycle (scriptEnv (\<lambda>n. Inr [signedToken ''consul'' (T0 + 7200000000000)])
            (\<lambda>s. False) (\<lambda>n. 3 * Second) 5)
     (newIdentityHook [] exAlloc) 7
     [mkRequest exAlloc \<lparr>TaskName = ''web'', Identities = [consul]\<rparr> consul]
     [''consul'' \<mapsto> consul] \<lparr>wait = 23 * Second, retry = 1, minExp = T0\<rparr> 1 =
   (Some \<lparr>wait = Hour, retry = 0, minExp = T0 + 7200000000000\<rparr>,
    [LogWaiting 1 (23 * Second), TimerReset (23 * Second), LogGetting 1,
     SignCall 7 [mkRequest exAlloc \<lparr>TaskName = ''web'', Identities = [consul]\<rparr> consul]
       (Inr [signedToken ''consul'' (T0 + 7200000000000)]),
     SetAltToken consul ''consul.jwt''], 2)"
proof -
  let ?tok = "signedToken ''consul'' (T0 + 7200000000000)"
  let ?E = "scriptEnv (\<lambda>n. Inr [?tok]) (\<lambda>s. False) (\<lambda>n. 3 * Second) 5"
  let ?h = "newIdentityHook [] exAlloc"
  let ?st = "\<lparr>wait = 23 * Second, retry = 1, minExp = T0\<rparr>"
  let ?reqs = "[mkRequest exAlloc \<lparr>TaskName = ''web'', Identities = [consul]\<rparr> consul]"
  have h1: "selectTimer ?E (wait ?st) 1 = (True, 1)"
    by (simp add: scriptEnv_def)
  have h2: "SignIdentities ?E 7 ?reqs 1 = (Inr [?tok], 2)"
    by (simp add: scriptEnv_def)
  have h3: "[?tok] \<noteq> []"
    by simp
  have h4: "applyTokens ?E ?h [''consul'' \<mapsto> consul] (retry ?st) [?tok] 0 2 =
              (T0 + 7200000000000, [SetAltToken consul ''consul.jwt''], 2)"
    by (simp add: scriptEnv_def signedToken_def time_IsZero_def)
  have h5: "ExpiryToRenewTime ?E (T0 + 7200000000000) (minWait ?h) 2 = (Hour, 2)"
    by (simp add: scriptEnv_def newIdentityHook_def Second_def Hour_def)
  show ?thesis
    using retry_reset_whenever_tokens_returned [OF h1 h2 h3 h4 h5]
    by simp
qed

text \<open>
  C6 as stated fails: a cycle that started with three retries counted, was answered for
  one of its two requested identities only, and whose one sink write failed, leaves the
  retry counter at zero.
\<close>

theorem retry_reset_despite_sink_failure:
  "cycle (scriptEnv (\<lambda>n. Inr [signedToken ''consul'' (T0 + 7200000000000)])
            (\<lambda>s. s = ''consul.jwt'') (\<lambda>n. 3 * Second) 5)
     (newIdentityHook [] exAlloc) 7
     [mkRequest exAlloc \<lparr>TaskName = ''web'', Identities = [consul, vault]\<rparr> consul,
      mkRequest exAlloc \<lparr>TaskName = ''web'', Identities = [consul, vault]\<rparr> vault]
     [''consul'' \<mapsto> consul, ''vault'' \<mapsto> vault] \<lparr>wait = 0, retry = 3, minExp = T0\<rparr> 0 =
   (Some \<lparr>wait = 81500000000, retry = 0, minExp = T0 + 163000000000\<rparr>,
    [LogWaiting 2 0, TimerReset 0, LogGetting 2,
     SignCall 7
       [mkRequest exAlloc \<lparr>TaskName = ''web'', Identities = [consul, vault]\<rparr> consul,
        mkRequest exAlloc \<lparr>TaskName = ''web'', Identities = [consul, vault]\<rparr> vault]
       (Inr [signedToken ''consul'' (T0 + 7200000000000)]),
     SetAltToken consul ''consul.jwt'', LogSetError (Err ''sink'') ''consul''], 1)"
  by (simp add: cycle_def scriptEnv_def newIdentityHook_def backoff_def Second_def Hour_def
      time_Add_def signedToken_def)




section \<open>Prerun\<close>

lemma goRenews_append: "goRenews (xs @ ys) = goRenews xs @ goRenews ys"
  by (induction xs rule: goRenews.induct) simp_all

lemma published_append: "published (xs @ ys) = published xs @ published ys"
  by (induction xs rule: published.induct) simp_all

lemma getIdentities_cases:
  assumes "getIdentities E a task w = (res, evs, w')"
  obtains (none) "Identities task = []" "res = Inr None" "evs = []" "w' = w"
  | (failed) err where "Identities task \<noteq> []" "res = Inl err"
      "evs = [SignCall (CreateIndex a) (map (mkRequest a task) (Identities task)) (Inl err)]"
      "SignIdentities E (CreateIndex a) (map (mkRequest a task) (Identities task)) w = (Inl err, w')"
  | (signed) signedWIDs where "Identities task \<noteq> []"
      "res = Inr (Some (indexByName signedWIDs Map.empty))"
      "evs = [SignCall (CreateIndex a) (map (mkRequest a task) (Identities task)) (Inr signedWIDs)]"
      "SignIdentities E (CreateIndex a) (map (mkRequest a task) (Identities task)) w = (Inr signedWIDs, w')"
  using assms
  by (auto simp: getIdentities_def Let_def split: if_splits prod.splits sum.splits)

lemma PrerunTasks_goRenews:
  "PrerunTasks E h ts w = (res, evs, w') \<Longrightarrow> goRenews evs = []"
proof (induction ts arbitrary: w res evs w')
  case Nil
  then show ?case by simp
next
  case (Cons t ts)
  show ?case
  proof (cases t)
    case None
    with Cons show ?thesis by simp
  next
    case (Some task)
    obtain r1 evs1 w1 where g: "getIdentities E (alloc h) task w = (r1, evs1, w1)"
      by (cases "getIdentities E (alloc h) task w") auto
    obtain r2 evs2 w2 where p: "PrerunTasks E h ts w1 = (r2, evs2, w2)"
      by (cases "PrerunTasks E h ts w1") auto
    from g have e1: "goRenews evs1 = []"
      by (cases rule: getIdentities_cases) auto
    from Cons.IH [OF p] have e2: "goRenews evs2 = []" .
    from Cons.prems Some g p e1 e2 show ?thesis
      by (cases r1) (auto simp: goRenews_append)
  qed
qed

lemma PrerunTasks_error:
  "PrerunTasks E h ts w = (Some e, evs, w') \<Longrightarrow>
     \<exists>err i r evs0. e = Wrap ''error fetching alternate identities'' err
        \<and> evs = evs0 @ [SignCall i r (Inl err)]"
proof (induction ts arbitrary: w evs w')
  case Nil
  then show ?case by simp
next
  case (Cons t ts)
  show ?case
  proof (cases t)
    case None
    with Cons show ?thesis by simp
  next
    case (Some task)
    obtain r1 evs1 w1 where g: "getIdentities E (alloc h) task w = (r1, evs1, w1)"
      by (cases "getIdentities E (alloc h) task w") auto
    obtain r2 evs2 w2 where p: "PrerunTasks E h ts w1 = (r2, evs2, w2)"
      by (cases "PrerunTasks E h ts w1") auto
    show ?thesis
    proof (cases r1)
      case (Inl err)
      with g have "evs1 = [SignCall (CreateIndex (alloc h))
                     (map (mkRequest (alloc h) task) (Identities task)) (Inl err)]"
        by (cases rule: getIdentities_cases) auto
      with Cons.prems Some g Inl show ?thesis by auto
    next
      case (Inr m)
      with Cons.prems Some g p have r2: "r2 = Some e" and evs: "evs = evs1 @ Publish m # evs2"
        by auto
      from Cons.IH [OF p [unfolded r2]] obtain err i r evs0
        where "e = Wrap ''error fetching alternate identities'' err"
          and "evs2 = evs0 @ [SignCall i r (Inl err)]"
        by blast
      with evs show ?thesis
        by (intro exI [of _ err] exI [of _ i] exI [of _ r] exI [of _ "evs1 @ Publish m # evs0"]) simp
    qed
  qed
qed

lemma PrerunTasks_success:
  "PrerunTasks E h ts w = (None, evs, w') \<Longrightarrow>
     publishedNext evs \<and> length (published evs) = length (filter (\<lambda>t. t \<noteq> None) ts)"
proof (induction ts arbitrary: w evs w')
  case Nil
  then show ?case by simp
next
  case (Cons t ts)
  show ?case
  proof (cases t)
    case None
    with Cons show ?thesis by simp
  next
    case (Some task)
    obtain r1 evs1 w1 where g: "getIdentities E (alloc h) task w = (r1, evs1, w1)"
      by (cases "getIdentities E (alloc h) task w") auto
    obtain r2 evs2 w2 where p: "PrerunTasks E h ts w1 = (r2, evs2, w2)"
      by (cases "PrerunTasks E h ts w1") auto
    from Cons.prems Some g p obtain m where r1: "r1 = Inr m" and r2: "r2 = None"
      and evs: "evs = evs1 @ Publish m # evs2"
      by (cases r1) auto
    from Cons.IH [OF p [unfolded r2]]
    have ih: "publishedNext evs2" "length (published evs2) = length (filter (\<lambda>t. t \<noteq> None) ts)"
      by auto
    from g r1 show ?thesis
    proof (cases rule: getIdentities_cases)
      case none
      with ih evs Some show ?thesis by simp
    next
      case (failed err)
      with r1 show ?thesis by simp
    next
      case (signed signedWIDs)
      with ih evs Some r1 show ?thesis by simp
    qed
  qed
qed


text \<open>
  C5. When a signing call made during \<^verbatim>\<open>Prerun\<close> answers with an error,
  \<^verbatim>\<open>Prerun\<close> returns that error wrapped, the failed call is the last thing it did (no
  map is published for that task), and no renewal loop is started. When \<^verbatim>\<open>Prerun\<close>
  returns nil, every answer of the signer was indexed by name and published, one map was
  published per task, and the one renewal loop was started last.
\<close>

theorem Prerun_signing_error_is_fatal:
  "(Prerun E h w = (Some e, evs, w') \<longrightarrow>
      (\<exists>err i r evs0. e = Wrap ''error fetching alternate identities'' err
          \<and> evs = evs0 @ [SignCall i r (Inl err)])
      \<and> goRenews evs = [])
   \<and> (Prerun E h w = (None, evs, w') \<longrightarrow>
      (\<exists>evs0. evs = evs0 @ [GoRenew (CreateIndex (alloc h)) Map.empty]
          \<and> publishedNext evs0
          \<and> length (published evs0) = length (filter (\<lambda>t. t \<noteq> None) (tasks h))
          \<and> goRenews evs0 = []))"
proof (intro conjI impI)
  assume a: "Prerun E h w = (Some e, evs, w')"
  then have p: "PrerunTasks E h (tasks h) w = (Some e, evs, w')"
    by (auto simp: Prerun_def split: prod.splits option.splits)
  from PrerunTasks_error [OF p]
  show "\<exists>err i r evs0. e = Wrap ''error fetching alternate identities'' err
          \<and> evs = evs0 @ [SignCall i r (Inl err)]" .
  from PrerunTasks_goRenews [OF p] show "goRenews evs = []" .
next
  assume a: "Prerun E h w = (None, evs, w')"
  then obtain evs0 where p: "PrerunTasks E h (tasks h) w = (None, evs0, w')"
    and e: "evs = evs0 @ [GoRenew (CreateIndex (alloc h)) Map.empty]"
    by (auto simp: Prerun_def split: prod.splits option.splits)
  from PrerunTasks_success [OF p] PrerunTasks_goRenews [OF p] e
  show "\<exists>evs0. evs = evs0 @ [GoRenew (CreateIndex (alloc h)) Map.empty]
          \<and> publishedNext evs0
          \<and> length (published evs0) = length (filter (\<lambda>t. t \<noteq> None) (tasks h))
          \<and> goRenews evs0 = []"
    by blast
qed

theorem Prerun_signing_error_is_fatal_witness:
  "Prerun (scriptEnv (\<lambda>n. if n = 0 then Inr [signedToken ''consul'' (T0 + 5)] else Inl (Err ''rpc''))
            (\<lambda>s. False) (\<lambda>n. 0) 0)
     (newIdentityHook [Some dbTask, None, Some webTask] exAlloc) 0 =
   (Some (Wrap ''error fetching alternate identities'' (Err ''rpc'')),
    [SignCall 7 [mkRequest exAlloc dbTask consul] (Inr [signedToken ''consul'' (T0 + 5)]),
     Publish (Some [''consul'' \<mapsto> ''consul.jwt'']),
     SignCall 7 [mkRequest exAlloc webTask static, mkRequest exAlloc webTask vault]
       (Inl (Err ''rpc''))], 2)
   \<and> (\<exists>evs0. fst (snd (Prerun (scriptEnv (\<lambda>n. Inr [signedToken ''consul'' (T0 + 5)])
                                  (\<lambda>s. False) (\<lambda>n. 0) 0)
                           (newIdentityHook [Some dbTask, None] exAlloc) 0)) =
               evs0 @ [GoRenew 7 Map.empty]
            \<and> length (published evs0) = 1 \<and> goRenews evs0 = [])"
proof -
  let ?E = "scriptEnv (\<lambda>n. if n = 0 then Inr [signedToken ''consul'' (T0 + 5)] else Inl (Err ''rpc''))
              (\<lambda>s. False) (\<lambda>n. 0) 0"
  let ?h = "newIdentityHook [Some dbTask, None, Some webTask] exAlloc"
  let ?E' = "scriptEnv (\<lambda>n. Inr [signedToken ''consul'' (T0 + 5)]) (\<lambda>s. False) (\<lambda>n. 0) 0"
  let ?h' = "newIdentityHook [Some dbTask, None] exAlloc"
  let ?evs = "[SignCall 7 [mkRequest exAlloc dbTask consul] (Inr [signedToken ''consul'' (T0 + 5)]),
     Publish (Some [''consul'' \<mapsto> ''consul.jwt'']),
     SignCall 7 [mkRequest exAlloc webTask static, mkRequest exAlloc webTask vault]
       (Inl (Err ''rpc''))]"
  have r1: "Prerun ?E ?h 0 = (Some (Wrap ''error fetching alternate identities'' (Err ''rpc'')), ?evs, 2)"
    by (simp add: Prerun_def getIdentities_def scriptEnv_def newIdentityHook_def exAlloc_def
        dbTask_def webTask_def signedToken_def)
  obtain evs' where r2: "Prerun ?E' ?h' 0 = (None, evs', 1)"
    by (simp add: Prerun_def getIdentities_def scriptEnv_def newIdentityHook_def exAlloc_def
        dbTask_def webTask_def signedToken_def)
  from Prerun_signing_error_is_fatal [of ?E ?h 0 _ ?evs 2] r1
  have "goRenews ?evs = []" by blast
  moreover from Prerun_signing_error_is_fatal [of ?E' ?h' 0 _ evs' 1] r2
  have "\<exists>evs0. evs' = evs0 @ [GoRenew 7 Map.empty]
          \<and> length (published evs0) = 1 \<and> goRenews evs0 = []"
    by (auto simp: newIdentityHook_def exAlloc_def)
  ultimately show ?thesis using r1 r2 by simp
qed

section \<open>The requests of the renewal loop\<close>

lemma signRequests_append: "signRequests (xs @ ys) = signRequests xs @ signRequests ys"
  by (induction xs rule: signRequests.induct) simp_all

lemma selectCandidates_reqs:
  "c_reqs (fst (selectCandidates a task s wids c)) =
     c_reqs c @ map (mkRequest a task) (filter (\<lambda>wid. TTL wid \<noteq> 0) wids)"
  by (induction wids arbitrary: c) (auto simp: Let_def split_beta split: option.splits)

lemma selectCandidates_renewNow:
  "c_renewNow (fst (selectCandidates a task s wids c)) =
     (c_renewNow c \<or> (\<exists>wid\<in>set wids. TTL wid \<noteq> 0 \<and> s (Name wid) = None))"
  by (induction wids arbitrary: c) (auto simp: Let_def split_beta split: option.splits)

lemma selectCandidates_minExp:
  "c_minExp (fst (selectCandidates a task s wids c)) =
     earliest (c_minExp c) (candidateExpirations s wids)"
  by (induction wids arbitrary: c)
     (auto simp: Let_def split_beta earliest_def time_Before_def min_def split: option.splits)

lemma selectCandidates_events:
  "snd (selectCandidates a task s wids c) =
     map (\<lambda>wid. LogMissingToken (Name wid))
       (filter (\<lambda>wid. TTL wid \<noteq> 0 \<and> s (Name wid) = None) wids)"
  by (induction wids arbitrary: c) (auto simp: Let_def split_beta split: option.splits)

lemma selectCandidates_signRequests:
  "signRequests (snd (selectCandidates a task s wids c)) = []"
  unfolding selectCandidates_events by (induction wids) auto


lemma selectCandidates_result:
  assumes "selectCandidates a task s wids c = (c', evs)"
  shows "c_reqs c' = c_reqs c @ map (mkRequest a task) (filter (\<lambda>wid. TTL wid \<noteq> 0) wids)"
    and "c_renewNow c' = (c_renewNow c \<or> (\<exists>wid\<in>set wids. TTL wid \<noteq> 0 \<and> s (Name wid) = None))"
    and "c_minExp c' = earliest (c_minExp c) (candidateExpirations s wids)"
    and "evs = map (\<lambda>wid. LogMissingToken (Name wid))
                 (filter (\<lambda>wid. TTL wid \<noteq> 0 \<and> s (Name wid) = None) wids)"
    and "signRequests evs = []"
  using assms selectCandidates_reqs [of a task s wids c]
    selectCandidates_renewNow [of a task s wids c]
    selectCandidates_minExp [of a task s wids c]
    selectCandidates_events [of a task s wids c]
    selectCandidates_signRequests [of a task s wids c]
  by simp_all

lemma prepare_signRequests:
  "prepare E h s task w = (r, evs, w') \<Longrightarrow> signRequests evs = []"
  by (auto simp: prepare_def signRequests_append
      split: if_splits prod.splits dest: selectCandidates_result(5))

lemma prepare_reqs:
  "prepare E h s task w = (Some (c, wt), evs, w') \<Longrightarrow>
     c_reqs c = map (mkRequest (alloc h) task) (filter (\<lambda>wid. TTL wid \<noteq> 0) (Identities task))"
  by (auto simp: prepare_def split: if_splits prod.splits dest: selectCandidates_result(1))

lemma applyTokens_signRequests:
  "applyTokens E h widMap rt tokens mExp w = (m, evs, w') \<Longrightarrow> signRequests evs = []"
proof (induction tokens arbitrary: mExp w m evs w')
  case Nil
  then show ?case by simp
next
  case (Cons token tokens)
  show ?case
  proof (cases "widMap (IdentityName token)")
    case None
    with Cons.prems Cons.IH show ?thesis
      by (auto split: prod.splits)
  next
    case (Some widspec)
    with Cons.prems Cons.IH show ?thesis
      by (auto split: prod.splits option.splits if_splits)
  qed
qed

lemma cycle_signRequests:
  "cycle E h createIndex reqs widMap st w = (r, evs, w') \<Longrightarrow> set (signRequests evs) \<subseteq> {reqs}"
  by (auto simp: cycle_def cycleFailed_def signRequests_append
      split: prod.splits bool.splits sum.splits if_splits
      dest: applyTokens_signRequests)

lemma cycles_signRequests:
  "cycles E h createIndex reqs widMap n st w = (out, evs, w') \<Longrightarrow>
     set (signRequests evs) \<subseteq> {reqs}"
proof (induction n arbitrary: st w out evs w')
  case 0
  then show ?case by simp
next
  case (Suc n)
  obtain r evs1 w1 where c: "cycle E h createIndex reqs widMap st w = (r, evs1, w1)"
    by (cases "cycle E h createIndex reqs widMap st w") auto
  note s1 = cycle_signRequests [OF c]
  show ?case
  proof (cases r)
    case None
    with Suc.prems c s1 show ?thesis by auto
  next
    case (Some st')
    obtain out2 evs2 w2 where r: "cycles E h createIndex reqs widMap n st' w1 = (out2, evs2, w2)"
      by (cases "cycles E h createIndex reqs widMap n st' w1") auto
    from Suc.IH [OF r] s1 Suc.prems c Some r show ?thesis
      by (auto simp: signRequests_append)
  qed
qed

lemma renewTasks_cancelled_signRequests:
  "renewTasks E h fuel createIndex s True ts w = (out, evs, w') \<Longrightarrow> signRequests evs = []"
proof (induction ts arbitrary: w out evs w')
  case Nil
  then show ?case by simp
next
  case (Cons t ts)
  show ?case
  proof (cases t)
    case None
    with Cons.prems show ?thesis by simp
  next
    case (Some task)
    obtain r evs1 w1 where p: "prepare E h s task w = (r, evs1, w1)"
      by (cases "prepare E h s task w") auto
    note s1 = prepare_signRequests [OF p]
    show ?thesis
    proof (cases r)
      case None
      with Cons.prems Some p s1 show ?thesis by auto
    next
      case (Some cw)
      obtain c wt where cw: "cw = (c, wt)" by (cases cw)
      obtain out2 evs2 w2 where r: "renewTasks E h fuel createIndex s True ts w1 = (out2, evs2, w2)"
        by (cases "renewTasks E h fuel createIndex s True ts w1") auto
      from Cons.IH [OF r] s1 Cons.prems \<open>t = Some task\<close> p Some cw r show ?thesis
        by (auto simp: signRequests_append stopCtxErr_def)
    qed
  qed
qed

lemma renewTasks_first_task_only:
  assumes "renewTasks E h fuel createIndex s cancelled (Some task # ts) w = (out, evs, w')"
  shows "set (signRequests evs) \<subseteq>
           {map (mkRequest (alloc h) task) (filter (\<lambda>wid. TTL wid \<noteq> 0) (Identities task))}"
proof -
  obtain r evs1 w1 where p: "prepare E h s task w = (r, evs1, w1)"
    by (cases "prepare E h s task w") auto
  note s1 = prepare_signRequests [OF p]
  show ?thesis
  proof (cases r)
    case None
    with assms p s1 show ?thesis by auto
  next
    case (Some cw)
    obtain c wt where cw: "cw = (c, wt)" by (cases cw)
    note rq = prepare_reqs [OF p [unfolded Some cw]]
    obtain b w2 where e: "stopCtxErr E cancelled w1 = (b, w2)"
      by (cases "stopCtxErr E cancelled w1") auto
    show ?thesis
    proof (cases b)
      case True
      obtain out2 evs2 w3 where r: "renewTasks E h fuel createIndex s True ts w2 = (out2, evs2, w3)"
        by (cases "renewTasks E h fuel createIndex s True ts w2") auto
      from renewTasks_cancelled_signRequests [OF r] assms p Some cw e True r s1
      show ?thesis by (auto simp: signRequests_append)
    next
      case False
      obtain out2 evs2 w3 where r: "cycles E h createIndex (c_reqs c) (c_widMap c) fuel
          \<lparr>wait = wt, retry = 0, minExp = c_minExp c\<rparr> w2 = (out2, evs2, w3)"
        by (cases "cycles E h createIndex (c_reqs c) (c_widMap c) fuel
          \<lparr>wait = wt, retry = 0, minExp = c_minExp c\<rparr> w2") auto
      from cycles_signRequests [OF r] assms p Some cw e False r s1 rq
      show ?thesis by (auto simp: signRequests_append)
    qed
  qed
qed









lemma renewTasks_cancelled_outcome:
  "renewTasks E h fuel createIndex s True ts w = (out, evs, w') \<Longrightarrow> out \<noteq> OutOfFuel"
proof (induction ts arbitrary: w out evs w')
  case Nil
  then show ?case by auto
next
  case (Cons t ts)
  show ?case
  proof (cases t)
    case None
    with Cons.prems show ?thesis by auto
  next
    case (Some task)
    obtain r evs1 w1 where p: "prepare E h s task w = (r, evs1, w1)"
      by (cases "prepare E h s task w") auto
    show ?thesis
    proof (cases r)
      case None
      with Cons.prems Some p show ?thesis by auto
    next
      case (Some cw)
      obtain c wt where cw: "cw = (c, wt)" by (cases cw)
      obtain out2 evs2 w2 where r: "renewTasks E h fuel createIndex s True ts w1 = (out2, evs2, w2)"
        by (cases "renewTasks E h fuel createIndex s True ts w1") auto
      from Cons.IH [OF r] Cons.prems \<open>t = Some task\<close> p Some cw r show ?thesis
        by (auto simp: stopCtxErr_def)
    qed
  qed
qed

text \<open>
  C9, as amended. The renewal loop issues signing requests for the identities of the
  first task only. Its first pass through the loop over the tasks returns, or enters the
  inner loop, which later tasks do not influence, or, when the context is already
  cancelled at the one test before the inner loop, goes on to the later tasks: then no
  signing call is made at all, and \<^verbatim>\<open>renew\<close> ends.
\<close>

theorem renewal_requests_first_task_only:
  assumes "renewTasks E h fuel createIndex s cancelled (Some task # ts) w = (out, evs, w')"
    and "prepare E h s task w = (r, evs1, w1)"
  shows "set (signRequests evs) \<subseteq>
           {map (mkRequest (alloc h) task) (filter (\<lambda>wid. TTL wid \<noteq> 0) (Identities task))}
       \<and> (r = None \<longrightarrow> (out, evs, w') = (Returned, evs1, w1))
       \<and> (r \<noteq> None \<and> fst (stopCtxErr E cancelled w1) = False \<longrightarrow>
            renewTasks E h fuel createIndex s cancelled (Some task # ts') w = (out, evs, w'))
       \<and> (r \<noteq> None \<and> fst (stopCtxErr E cancelled w1) = True \<longrightarrow>
            signRequests evs = [] \<and> out \<noteq> OutOfFuel)"
proof (intro conjI impI)
  show "set (signRequests evs) \<subseteq>
          {map (mkRequest (alloc h) task) (filter (\<lambda>wid. TTL wid \<noteq> 0) (Identities task))}"
    using assms(1) by (rule renewTasks_first_task_only)
next
  assume "r = None"
  with assms show "(out, evs, w') = (Returned, evs1, w1)" by simp
next
  assume a: "r \<noteq> None \<and> fst (stopCtxErr E cancelled w1) = False"
  then obtain c wt where cw: "r = Some (c, wt)" by auto
  obtain b w2 where e: "stopCtxErr E cancelled w1 = (b, w2)"
    by (cases "stopCtxErr E cancelled w1") auto
  with a have "b = False" by simp
  with assms cw e show "renewTasks E h fuel createIndex s cancelled (Some task # ts') w = (out, evs, w')"
    by simp
next
  assume a: "r \<noteq> None \<and> fst (stopCtxErr E cancelled w1) = True"
  then obtain c wt where cw: "r = Some (c, wt)" by auto
  obtain b w2 where e: "stopCtxErr E cancelled w1 = (b, w2)"
    by (cases "stopCtxErr E cancelled w1") auto
  with a have b: "b = True" by simp
  obtain out2 evs2 w3 where rt: "renewTasks E h fuel createIndex s True ts w2 = (out2, evs2, w3)"
    by (cases "renewTasks E h fuel createIndex s True ts w2") auto
  from assms cw e b rt have o: "out = out2" and ev: "evs = evs1 @ evs2" by auto
  from renewTasks_cancelled_signRequests [OF rt] prepare_signRequests [OF assms(2)] ev
  show "signRequests evs = []" by (simp add: signRequests_append)
  from renewTasks_cancelled_outcome [OF rt] o show "out \<noteq> OutOfFuel" by simp
qed

text \<open>
  C9 as stated fails: on a hook stopped before \<^verbatim>\<open>renew\<close> tests the context, the first
  pass neither returns nor stays in the inner loop; the second task is reached, and the
  missing token of its identity \<open>vault\<close> is logged.
\<close>

theorem second_task_reached_when_stopped_early:
  "renew envB (snd (Stop hookAB)) (Suc (Suc 0)) 7 Map.empty 0 =
     (Returned, [LogMissingToken ''consul'', LogMissingToken ''vault''], 0)"
  by (simp add: run_defs)

theorem renewal_requests_first_task_only_witness:
  "renewTasks envB hookAB (Suc (Suc 0)) 7 Map.empty False [Some dbTask, Some webTask] 0 =
     renewTasks envB hookAB (Suc (Suc 0)) 7 Map.empty False [Some dbTask] 0
   \<and> signRequests (fst (snd (renewTasks envB hookAB (Suc (Suc 0)) 7 Map.empty False
        [Some dbTask, Some webTask] 0))) =
       [ [mkRequest exAlloc dbTask consul], [mkRequest exAlloc dbTask consul]]
   \<and> signRequests (fst (snd (renewTasks envB hookAB (Suc (Suc 0)) 7 Map.empty True
        [Some dbTask, Some webTask] 0))) = []"
proof -
  obtain c where p: "prepare envB hookAB Map.empty dbTask 0 = (Some (c, 0), [LogMissingToken ''consul''], 0)"
    by (simp add: run_defs)
  obtain out evs w' where r: "renewTasks envB hookAB (Suc (Suc 0)) 7 Map.empty False
      [Some dbTask, Some webTask] 0 = (out, evs, w')"
    by (cases "renewTasks envB hookAB (Suc (Suc 0)) 7 Map.empty False [Some dbTask, Some webTask] 0") auto
  obtain out2 evs2 w2 where r2: "renewTasks envB hookAB (Suc (Suc 0)) 7 Map.empty True
      [Some dbTask, Some webTask] 0 = (out2, evs2, w2)"
    by (cases "renewTasks envB hookAB (Suc (Suc 0)) 7 Map.empty True [Some dbTask, Some webTask] 0") auto
  have e: "fst (stopCtxErr envB False 0) = False" "fst (stopCtxErr envB True 0) = True"
    by (simp_all add: stopCtxErr_def envB_def scriptEnv_def)
  from renewal_requests_first_task_only [OF r p, of "[]"] e r
  have c1: "renewTasks envB hookAB (Suc (Suc 0)) 7 Map.empty False [Some dbTask, Some webTask] 0 =
     renewTasks envB hookAB (Suc (Suc 0)) 7 Map.empty False [Some dbTask] 0"
    by simp
  have c2: "signRequests (fst (snd (renewTasks envB hookAB (Suc (Suc 0)) 7 Map.empty False
        [Some dbTask] 0))) = [ [mkRequest exAlloc dbTask consul], [mkRequest exAlloc dbTask consul]]"
    by (simp add: run_defs)
  from renewal_requests_first_task_only [OF r2 p, of "[]"] e r2
  have c3: "signRequests (fst (snd (renewTasks envB hookAB (Suc (Suc 0)) 7 Map.empty True
        [Some dbTask, Some webTask] 0))) = []"
    by simp
  from c1 c2 c3 show ?thesis by simp
qed

section \<open>The first wait\<close>









section \<open>Consecutive failures\<close>

lemma failWaits_append: "failWaits (xs @ ys) = failWaits xs @ failWaits ys"
  by (induction xs rule: failWaits.induct) simp_all

lemma applyTokens_failWaits:
  "applyTokens E h widMap rt tokens mExp w = (m, evs, w') \<Longrightarrow> failWaits evs = []"
proof (induction tokens arbitrary: mExp w m evs w')
  case Nil
  then show ?case by simp
next
  case (Cons token tokens)
  show ?case
  proof (cases "widMap (IdentityName token)")
    case None
    with Cons.prems Cons.IH show ?thesis
      by (auto split: prod.splits)
  next
    case (Some widspec)
    with Cons.prems Cons.IH show ?thesis
      by (auto split: prod.splits option.splits if_splits)
  qed
qed

lemma cycle_failWaits:
  assumes "cycle E h createIndex reqs widMap st w = (r, evs, w')"
  shows "failWaits evs = []
       \<or> (\<exists>st' w0. r = Some st' \<and> retry st' = retry st + 1
             \<and> failWaits evs =
                 [Backoff E (minWait h) Hour (retry st + 1) + fst (RandomStagger E (minWait h) w0)])"
  using assms
  by (auto simp: cycle_def cycleFailed_def failWaits_append
      split: prod.splits bool.splits sum.splits if_splits
      dest: applyTokens_failWaits) (metis fst_conv)+

lemma cycles_failWaits_le:
  "cycles E h createIndex reqs widMap n st w = (out, evs, w') \<Longrightarrow> length (failWaits evs) \<le> n"
proof (induction n arbitrary: st w out evs w')
  case 0
  then show ?case by simp
next
  case (Suc n)
  obtain r evs1 w1 where c: "cycle E h createIndex reqs widMap st w = (r, evs1, w1)"
    by (cases "cycle E h createIndex reqs widMap st w") auto
  from cycle_failWaits [OF c] have l1: "length (failWaits evs1) \<le> 1" by auto
  show ?case
  proof (cases r)
    case None
    with Suc.prems c l1 show ?thesis by auto
  next
    case (Some st')
    obtain out2 evs2 w2 where r: "cycles E h createIndex reqs widMap n st' w1 = (out2, evs2, w2)"
      by (cases "cycles E h createIndex reqs widMap n st' w1") auto
    from Suc.IH [OF r] l1 Suc.prems c Some r show ?thesis
      by (auto simp: failWaits_append)
  qed
qed

lemma cycles_all_failed:
  "cycles E h createIndex reqs widMap n st w = (out, evs, w') \<Longrightarrow> length (failWaits evs) = n \<Longrightarrow>
     \<forall>k<n. \<exists>w0. failWaits evs ! k =
        Backoff E (minWait h) Hour (retry st + of_nat (Suc k)) + fst (RandomStagger E (minWait h) w0)"
proof (induction n arbitrary: st w out evs w')
  case 0
  then show ?case by simp
next
  case (Suc n)
  obtain r evs1 w1 where c: "cycle E h createIndex reqs widMap st w = (r, evs1, w1)"
    by (cases "cycle E h createIndex reqs widMap st w") auto
  note cf = cycle_failWaits [OF c]
  then have l1: "length (failWaits evs1) \<le> 1" by auto
  show ?case
  proof (cases r)
    case None
    with cf have "failWaits evs1 = []" by auto
    with Suc.prems c None show ?thesis by auto
  next
    case (Some st')
    obtain out2 evs2 w2 where r: "cycles E h createIndex reqs widMap n st' w1 = (out2, evs2, w2)"
      by (cases "cycles E h createIndex reqs widMap n st' w1") auto
    from Suc.prems c Some r have evs: "evs = evs1 @ evs2" by auto
    note l2 = cycles_failWaits_le [OF r]
    from Suc.prems(2) evs l1 l2 have n1: "length (failWaits evs1) = 1" and n2: "length (failWaits evs2) = n"
      by (auto simp: failWaits_append)
    from cf n1 Some obtain w0 where rt: "retry st' = retry st + 1"
      and f1: "failWaits evs1 =
        [Backoff E (minWait h) Hour (retry st + 1) + fst (RandomStagger E (minWait h) w0)]"
      by auto
    note ih = Suc.IH [OF r n2]
    show ?thesis
    proof (intro allI impI)
      fix k
      assume k: "k < Suc n"
      show "\<exists>w0. failWaits evs ! k =
        Backoff E (minWait h) Hour (retry st + of_nat (Suc k)) + fst (RandomStagger E (minWait h) w0)"
      proof (cases k)
        case 0
        with evs f1 show ?thesis by (auto simp: failWaits_append)
      next
        case (Suc k')
        with k have "k' < n" by simp
        with ih obtain w0' where "failWaits evs2 ! k' =
          Backoff E (minWait h) Hour (retry st' + of_nat (Suc k')) + fst (RandomStagger E (minWait h) w0')"
          by blast
        with evs f1 Suc rt show ?thesis
          by (auto simp: failWaits_append add.assoc intro!: exI [of _ w0'])
      qed
    qed
  qed
qed

lemma sint_word_of_int_64:
  "- (2 ^ 63) \<le> x \<Longrightarrow> x < 2 ^ 63 \<Longrightarrow> sint (word_of_int x :: 64 word) = x"
  by (simp add: sint_sbintrunc' signed_take_bit_int_eq_self)

lemma sint_add_64:
  "- (2 ^ 63) \<le> sint a + sint b \<Longrightarrow> sint a + sint b < 2 ^ 63 \<Longrightarrow>
     sint (a + b :: 64 word) = sint a + sint b"
  by (simp add: sint_word_add signed_take_bit_int_eq_self)

lemma sint_lt_64: "sint (x :: 64 word) < 2 ^ 63"
  using sint_lt [of x] by simp

lemma sint_ge_64: "- (2 ^ 63) \<le> sint (x :: 64 word)"
  using sint_ge [of x] by simp

lemma sint_backoff:
  assumes "0 < sint f"
  shows "sint (backoff f c n) = (if sint f * 2 ^ unat n < sint c then sint f * 2 ^ unat n else sint c)"
proof (cases "sint f * 2 ^ unat n < sint c")
  case True
  from assms have "0 < sint f * 2 ^ unat n" by simp
  moreover from True sint_lt_64 [of c] have "sint f * 2 ^ unat n < 2 ^ 63" by simp
  ultimately have "sint (word_of_int (sint f * 2 ^ unat n) :: 64 word) = sint f * 2 ^ unat n"
    by (intro sint_word_of_int_64) simp_all
  with True show ?thesis by (simp add: backoff_def)
next
  case False
  then show ?thesis by (simp add: backoff_def)
qed

lemma backoff_ge_floor:
  assumes "0 < sint f" "sint f \<le> sint c"
  shows "sint f \<le> sint (backoff f c n)"
proof -
  have "sint f * 1 \<le> sint f * 2 ^ unat n"
    using assms(1) by (intro mult_left_mono) simp_all
  with assms show ?thesis by (simp add: sint_backoff)
qed

lemma backoff_le_ceiling:
  assumes "0 < sint f"
  shows "sint (backoff f c n) \<le> sint c"
  using assms by (simp add: sint_backoff)

lemma backoff_below_ceiling:
  assumes "0 < sint f" "sint f * 2 ^ k \<le> sint c"
  shows "sint (backoff f c (of_nat k)) = sint f * 2 ^ k"
proof -
  have "1 * (2::int) ^ k \<le> sint f * 2 ^ k"
    using assms(1) by (intro mult_right_mono) simp_all
  with assms(2) sint_lt_64 [of c] have "(2::int) ^ k < 2 ^ 63"
    by linarith
  then have "k < 63"
    by (rule power_less_imp_less_exp [rotated]) simp
  then have u: "unat (of_nat k :: 64 word) = k"
    by (simp add: unat_of_nat take_bit_nat_eq_self)
  from assms u show ?thesis by (auto simp: sint_backoff)
qed


lemma sint_Hour: "sint Hour = 3600000000000"
  by (simp add: Hour_def)

lemma sint_backoff_plus_jitter:
  assumes "0 < sint f" "sint f \<le> sint Hour" "jitterBounded f j"
  shows "sint (backoff f Hour n + j) = sint (backoff f Hour n) + sint j"
proof -
  from assms have j: "0 \<le> sint j" "sint j \<le> sint Hour"
    by (simp_all add: jitterBounded_def)
  from backoff_ge_floor [OF assms(1,2), of n] assms(1) have b: "0 < sint (backoff f Hour n)"
    by simp
  from backoff_le_ceiling [OF assms(1), of Hour n] have c: "sint (backoff f Hour n) \<le> sint Hour" .
  from j b c show ?thesis
    by (intro sint_add_64) (simp_all add: sint_Hour)
qed

text \<open>
  C7, as amended, with \<^verbatim>\<open>helper.Backoff\<close> and \<^verbatim>\<open>helper.RandomStagger\<close> as the
  specification describes them. When each of the first \<open>N\<close> cycles fails, with a floor
  that is positive and at most one hour, the wait computed by failure number \<open>k + 1\<close>
  is the backoff for \<open>k + 1\<close> retries plus a jitter between zero and the floor; it is at
  least the floor; and it is less than the next one as long as doubling has not passed
  the ceiling. Nothing keeps two consecutive waits apart once the ceiling is reached.
\<close>

theorem waits_under_consecutive_failures:
  assumes "cycles E h createIndex reqs widMap N st w = (out, evs, w')"
    and "length (failWaits evs) = N"
    and "retry st = 0"
    and "Backoff E = backoff"
    and "\<And>w0. jitterBounded (minWait h) (fst (RandomStagger E (minWait h) w0))"
    and "0 < sint (minWait h)"
    and "sint (minWait h) \<le> sint Hour"
  shows "\<forall>k<N.
           (\<exists>j. jitterBounded (minWait h) j
               \<and> failWaits evs ! k = backoff (minWait h) Hour (of_nat (Suc k)) + j)
         \<and> sint (minWait h) \<le> sint (failWaits evs ! k)
         \<and> (Suc k < N \<and> sint (minWait h) * 2 ^ (k + 2) \<le> sint Hour \<longrightarrow>
              sint (failWaits evs ! k) < sint (failWaits evs ! Suc k))"
proof (intro allI impI)
  fix k
  assume k: "k < N"
  let ?f = "minWait h"
  have form: "\<exists>j. jitterBounded ?f j \<and> failWaits evs ! i = backoff ?f Hour (of_nat (Suc i)) + j"
    if "i < N" for i
  proof -
    from cycles_all_failed [OF assms(1,2)] that obtain w0 where
      "failWaits evs ! i =
         Backoff E ?f Hour (retry st + of_nat (Suc i)) + fst (RandomStagger E ?f w0)"
      by blast
    with assms(3,4,5) show ?thesis by auto
  qed
  from form [OF k] obtain j where j: "jitterBounded ?f j"
    and wk: "failWaits evs ! k = backoff ?f Hour (of_nat (Suc k)) + j"
    by blast
  have sk: "sint (failWaits evs ! k) = sint (backoff ?f Hour (of_nat (Suc k))) + sint j"
    unfolding wk using assms(6,7) j by (rule sint_backoff_plus_jitter)
  from j have j0: "0 \<le> sint j" "sint j \<le> sint ?f"
    by (simp_all add: jitterBounded_def)
  have ge: "sint ?f \<le> sint (failWaits evs ! k)"
    using backoff_ge_floor [OF assms(6,7), of "of_nat (Suc k)"] j0 sk by simp
  have inc: "sint (failWaits evs ! k) < sint (failWaits evs ! Suc k)"
    if s: "Suc k < N" and below: "sint ?f * 2 ^ (k + 2) \<le> sint Hour"
  proof -
    from form [OF s] obtain j' where j': "jitterBounded ?f j'"
      and ws: "failWaits evs ! Suc k = backoff ?f Hour (of_nat (Suc (Suc k))) + j'"
      by blast
    have ss: "sint (failWaits evs ! Suc k) = sint (backoff ?f Hour (of_nat (Suc (Suc k)))) + sint j'"
      unfolding ws using assms(6,7) j' by (rule sint_backoff_plus_jitter)
    from j' have j0': "0 \<le> sint j'"
      by (simp add: jitterBounded_def)
    from below have b2: "sint ?f * 2 ^ Suc (Suc k) \<le> sint Hour" by simp
    have "sint ?f * 2 ^ Suc k \<le> sint ?f * 2 ^ Suc (Suc k)"
      using assms(6) by simp
    with b2 have b1: "sint ?f * 2 ^ Suc k \<le> sint Hour" by linarith
    note v1 = backoff_below_ceiling [OF assms(6) b1]
    note v2 = backoff_below_ceiling [OF assms(6) b2]
    have "sint ?f * 1 \<le> sint ?f * 2 ^ k"
      using assms(6) by (intro mult_left_mono) simp_all
    then have hk: "sint ?f \<le> sint ?f * 2 ^ k" by simp
    have e1: "sint (failWaits evs ! k) = 2 * (sint ?f * 2 ^ k) + sint j"
      unfolding sk v1 by simp
    have e2: "sint (failWaits evs ! Suc k) = 4 * (sint ?f * 2 ^ k) + sint j'"
      unfolding ss v2 by simp
    from hk assms(6) j0 j0' show ?thesis
      unfolding e1 e2 by linarith
  qed
  from j wk ge inc
  show "(\<exists>j. jitterBounded ?f j \<and> failWaits evs ! k = backoff ?f Hour (of_nat (Suc k)) + j)
         \<and> sint ?f \<le> sint (failWaits evs ! k)
         \<and> (Suc k < N \<and> sint ?f * 2 ^ (k + 2) \<le> sint Hour \<longrightarrow>
              sint (failWaits evs ! k) < sint (failWaits evs ! Suc k))"
    by blast
qed

text \<open>
  C7 as stated fails: with the floor of ten seconds, the ninth and the tenth consecutive
  failure both wait for the ceiling of one hour plus the jitter, and the jitter is the
  same six seconds both times.
\<close>

theorem consecutive_waits_identical_at_ceiling:
  "failWaits (fst (snd (cycles envF hookB 7 [mkRequest exAlloc webTask vault] [''vault'' \<mapsto> vault]
      (Suc (Suc (Suc (Suc (Suc (Suc (Suc (Suc (Suc (Suc 0))))))))))
      \<lparr>wait = 0, retry = 0, minExp = T0\<rparr> 0))) =
   [23 * Second, 43 * Second, 83 * Second, 163 * Second, 323 * Second, 643 * Second,
    1283 * Second, 2563 * Second, 3606 * Second, 3606 * Second]"
  by (simp add: run_defs)

theorem waits_under_consecutive_failures_witness:
  "failWaits (fst (snd (cycles envF hookB 7 [mkRequest exAlloc webTask vault] [''vault'' \<mapsto> vault]
      (Suc (Suc (Suc 0))) \<lparr>wait = 0, retry = 0, minExp = T0\<rparr> 0))) =
     [23 * Second, 43 * Second, 83 * Second]
   \<and> sint (minWait hookB) \<le> sint (23 * Second :: duration)
   \<and> sint (23 * Second :: duration) < sint (43 * Second :: duration)
   \<and> sint (43 * Second :: duration) < sint (83 * Second :: duration)"
proof -
  let ?st = "\<lparr>wait = 0, retry = 0, minExp = T0\<rparr>"
  let ?run = "cycles envF hookB 7 [mkRequest exAlloc webTask vault] [''vault'' \<mapsto> vault]
      (Suc (Suc (Suc 0))) ?st 0"
  obtain out evs w' where r: "?run = (out, evs, w')"
    by (cases ?run) auto
  have v: "failWaits (fst (snd ?run)) = [23 * Second, 43 * Second, 83 * Second]"
    by (simp add: run_defs)
  with r have fw: "failWaits evs = [23 * Second, 43 * Second, 83 * Second]"
    by simp
  then have h2: "length (failWaits evs) = Suc (Suc (Suc 0))"
    by simp
  have h3: "retry ?st = 0"
    by simp
  have h4: "Backoff envF = backoff"
    by (simp add: envF_def scriptEnv_def)
  have h5: "jitterBounded (minWait hookB) (fst (RandomStagger envF (minWait hookB) w0))" for w0
    by (simp add: envF_def scriptEnv_def jitterBounded_def hookB_def newIdentityHook_def Second_def)
  have h6: "0 < sint (minWait hookB)"
    by (simp add: hookB_def newIdentityHook_def Second_def)
  have h7: "sint (minWait hookB) \<le> sint Hour"
    by (simp add: hookB_def newIdentityHook_def Second_def Hour_def)
  note th = waits_under_consecutive_failures [OF r h2 h3 h4 h5 h6 h7]
  have p: "sint (minWait hookB) * 2 ^ (0 + 2) \<le> sint Hour"
    "sint (minWait hookB) * 2 ^ (Suc 0 + 2) \<le> sint Hour"
    by (simp_all add: hookB_def newIdentityHook_def Second_def Hour_def)
  from th have "sint (minWait hookB) \<le> sint (failWaits evs ! 0)"
    by simp
  moreover from th p(1) have "sint (failWaits evs ! 0) < sint (failWaits evs ! Suc 0)"
    by simp
  moreover from th p(2) have "sint (failWaits evs ! Suc 0) < sint (failWaits evs ! Suc (Suc 0))"
    by simp
  ultimately show ?thesis
    using v unfolding fw by simp
qed

end
